theory Spec2Isabelle
  imports Main "HOL-Library.Word"
begin

unbundle bit_operations_syntax

section \<open>Data model\<close>

text \<open>
  A \<^verbatim>\<open>std::string\<close> is a sequence of 8-bit characters and is modelled as \<^typ>\<open>string\<close>;
  a \<^verbatim>\<open>std::vector<uint8_t>\<close> is modelled as a list of 8-bit words. The conversions
  between \<^verbatim>\<open>char\<close> and \<^verbatim>\<open>uint8_t\<close> that the C++ performs implicitly are
  \<open>byte_of_char\<close> and \<open>char_of_byte\<close>. Sizes and indices (\<^verbatim>\<open>size_t\<close>,
  \<^verbatim>\<open>uint64_t\<close> cursor values) are natural numbers: every sum the frame codec forms is
  bounded by a buffer size plus \<open>65535 + 8\<close>, far below \<open>2^64\<close>. Where 32-bit
  arithmetic can wrap (the chat dispatch, the digest) the model uses \<^typ>\<open>32 word\<close>.
\<close>

type_synonym u8 = "8 word"
type_synonym u32 = "32 word"
type_synonym u64 = "64 word"

datatype WSOpcode = CONTINUATION | TEXT | BINARY | CLOSE | PING | PONG

fun opcode_value :: "WSOpcode \<Rightarrow> u8" where
  "opcode_value CONTINUATION = 0x0"
| "opcode_value TEXT = 0x1"
| "opcode_value BINARY = 0x2"
| "opcode_value CLOSE = 0x8"
| "opcode_value PING = 0x9"
| "opcode_value PONG = 0xA"

definition byte_of_char :: "char \<Rightarrow> u8" where
  "byte_of_char c = of_char c"

definition char_of_byte :: "u8 \<Rightarrow> char" where
  "char_of_byte b = char_of (unat b)"

section \<open>Frame codec (core.h)\<close>

text \<open>
  \<^verbatim>\<open>BuildWSFrame\<close>: byte 0 is \<open>0x80 | opcode\<close>; a length below 126 is one byte, a
  length up to \<open>0xFFFF\<close> is the marker 126 and two bytes \<open>(len >> 8) & 0xFF\<close>,
  \<open>len & 0xFF\<close>; for a longer message the source pushes no length byte at all.
\<close>

definition BuildWSFrame :: "string \<Rightarrow> WSOpcode \<Rightarrow> u8 list" where
  "BuildWSFrame message opcode =
     (let frame = [0x80 OR opcode_value opcode];
          len = length message;
          frame = (if len < 126 then frame @ [of_nat len]
                   else if len \<le> 0xFFFF
                   then frame @ [126, of_nat (drop_bit 8 len AND 0xFF), of_nat (len AND 0xFF)]
                   else frame)
      in frame @ map byte_of_char message)"

text \<open>
  \<^verbatim>\<open>ParseWSFrame\<close>. An index into the buffer beyond its size is undefined behaviour
  in C++; the model makes every read explicit (\<open>at\<close>) and returns \<open>None\<close> when a read
  is out of range, so that "never reads out of bounds" is the statement that the result is
  never \<open>None\<close>. The two payload loops are \<open>unmask_loop\<close> and \<open>copy_loop\<close>;
  \<open>parse_body\<close> is the part of the function after the length code has been decoded.
  The source's local \<^verbatim>\<open>mask\<close> is named \<open>masked\<close> here.
\<close>

definition at :: "u8 list \<Rightarrow> nat \<Rightarrow> u8 option" where
  "at buffer i = (if i < length buffer then Some (buffer ! i) else None)"

function unmask_loop ::
  "u8 list \<Rightarrow> nat \<Rightarrow> u8 list \<Rightarrow> nat \<Rightarrow> nat \<Rightarrow> string \<Rightarrow> string option" where
  "unmask_loop buffer pos mask_key payload_len i message =
     (if i < payload_len
      then (case at buffer (pos + i) of
              None \<Rightarrow> None
            | Some b \<Rightarrow>
                unmask_loop buffer pos mask_key payload_len (i + 1)
                  (message @ [char_of_byte (b XOR mask_key ! (i mod 4))]))
      else Some message)"
  by pat_completeness auto
termination
  by (relation "measure (\<lambda>(buffer, pos, mask_key, payload_len, i, message). payload_len - i)") auto

function copy_loop :: "u8 list \<Rightarrow> nat \<Rightarrow> nat \<Rightarrow> nat \<Rightarrow> string \<Rightarrow> string option" where
  "copy_loop buffer pos payload_len i message =
     (if i < payload_len
      then (case at buffer (pos + i) of
              None \<Rightarrow> None
            | Some b \<Rightarrow> copy_loop buffer pos payload_len (i + 1) (message @ [char_of_byte b]))
      else Some message)"
  by pat_completeness auto
termination
  by (relation "measure (\<lambda>(buffer, pos, payload_len, i, message). payload_len - i)") auto

declare unmask_loop.simps [simp del] copy_loop.simps [simp del]

definition read_mask_key :: "u8 list \<Rightarrow> nat \<Rightarrow> u8 list option" where
  "read_mask_key buffer pos =
     (case (at buffer pos, at buffer (pos + 1), at buffer (pos + 2), at buffer (pos + 3)) of
        (Some k0, Some k1, Some k2, Some k3) \<Rightarrow> Some [k0, k1, k2, k3]
      | _ \<Rightarrow> None)"

definition parse_body :: "u8 list \<Rightarrow> bool \<Rightarrow> nat \<Rightarrow> nat \<Rightarrow> string option" where
  "parse_body buffer masked payload_len pos =
     (if masked
      then (if length buffer < pos + 4 + payload_len then Some []
            else (case read_mask_key buffer pos of
                    None \<Rightarrow> None
                  | Some mask_key \<Rightarrow> unmask_loop buffer (pos + 4) mask_key payload_len 0 []))
      else (if length buffer < pos + payload_len then Some []
            else copy_loop buffer pos payload_len 0 []))"

definition ParseWSFrame :: "u8 list \<Rightarrow> string option" where
  "ParseWSFrame buffer =
     (if length buffer < 2 then Some []
      else (case at buffer 1 of
              None \<Rightarrow> None
            | Some byte2 \<Rightarrow>
                (let masked = (byte2 AND 0x80 \<noteq> 0);
                     payload_len = unat (byte2 AND 0x7F);
                     pos = 2
                 in if payload_len = 126
                    then (if length buffer < 4 then Some []
                          else (case (at buffer 2, at buffer 3) of
                                  (Some b2, Some b3) \<Rightarrow>
                                    parse_body buffer masked (push_bit 8 (unat b2) OR unat b3) (pos + 2)
                                | _ \<Rightarrow> None))
                    else if payload_len = 127 then Some []
                    else parse_body buffer masked payload_len pos)))"

text \<open>
  The repository has no encoder for masked frames (its client sends unmasked frames). The
  frames a masked round trip is stated over are therefore described directly: mask bit set,
  the length field as in \<open>BuildWSFrame\<close>, the four key bytes, then every payload byte
  XOR'd with \<open>K[i mod 4]\<close>.
\<close>

definition mask_payload :: "u8 list \<Rightarrow> string \<Rightarrow> u8 list" where
  "mask_payload K P = map (\<lambda>i. byte_of_char (P ! i) XOR K ! (i mod 4)) [0..<length P]"

definition masked_frame :: "WSOpcode \<Rightarrow> u8 list \<Rightarrow> string \<Rightarrow> u8 list" where
  "masked_frame opcode K P =
     [0x80 OR opcode_value opcode] @
     (if length P < 126 then [0x80 OR of_nat (length P)]
      else [0x80 OR 126, of_nat (length P div 256), of_nat (length P mod 256)]) @
     K @ mask_payload K P"

text \<open>
  Header fields of a received buffer, as the specification names them: byte 1's high bit
  is the mask flag, its low seven bits the length code; code 126 means the length is the
  next two bytes, big-endian; byte 0 holds FIN (high bit) and the opcode (low four bits).
\<close>

definition frame_masked :: "u8 list \<Rightarrow> bool" where
  "frame_masked buffer = (buffer ! 1 AND 0x80 \<noteq> 0)"

definition frame_len_code :: "u8 list \<Rightarrow> nat" where
  "frame_len_code buffer = unat (buffer ! 1 AND 0x7F)"

definition frame_header_size :: "u8 list \<Rightarrow> nat" where
  "frame_header_size buffer = (if frame_len_code buffer = 126 then 4 else 2)"

definition frame_declared_len :: "u8 list \<Rightarrow> nat" where
  "frame_declared_len buffer =
     (if frame_len_code buffer = 126 then 256 * unat (buffer ! 2) + unat (buffer ! 3)
      else frame_len_code buffer)"

definition frame_fin :: "u8 list \<Rightarrow> bool" where
  "frame_fin buffer = (hd buffer AND 0x80 \<noteq> 0)"

definition frame_opcode :: "u8 list \<Rightarrow> u8" where
  "frame_opcode buffer = hd buffer AND 0x0F"

section \<open>Runtime loops\<close>

text \<open>
  The socket calls are the environment. What \<^verbatim>\<open>select\<close> and \<^verbatim>\<open>recv\<close> deliver in one pass
  is a function \<open>incoming\<close> from a socket to \<open>None\<close> (not readable),
  \<open>Some RecvClosed\<close> (\<^verbatim>\<open>recv\<close> returned \<open>\<le> 0\<close>) or \<open>Some (RecvData bytes)\<close>.
  What the program does to the outside is a list of actions: \<^verbatim>\<open>send\<close>, \<^verbatim>\<open>close\<close>, and
  output to \<^verbatim>\<open>std::cout\<close> and \<^verbatim>\<open>std::cerr\<close> (a socket number printed with \<^verbatim>\<open><<\<close> is kept as
  \<open>Num\<close>). As in the codec, \<open>None\<close> as a result stands for a fault of the C++ program:
  an out-of-range read or an uncaught \<^verbatim>\<open>std::out_of_range\<close> from \<^verbatim>\<open>substr\<close>.
\<close>

datatype recv_result = RecvClosed | RecvData "u8 list"

datatype out_item = Str string | Num int

datatype action = Send int "u8 list" | Close int | Cout "out_item list" | Cerr "out_item list"

definition newline :: string where
  "newline = [CHR 0x0A]"

definition substr :: "string \<Rightarrow> nat \<Rightarrow> nat \<Rightarrow> string option" where
  "substr s pos count = (if length s < pos then None else Some (take count (drop pos s)))"

definition substr_from :: "string \<Rightarrow> nat \<Rightarrow> string option" where
  "substr_from s pos = (if length s < pos then None else Some (drop pos s))"

text \<open>
  \<^verbatim>\<open>memcpy(&nameLen, payload.data(), 4); nameLen = ntohl(nameLen)\<close> reads the first four
  bytes as a big-endian 32-bit value (\<open>load_be32\<close>); the client's
  \<^verbatim>\<open>htonl\<close> followed by appending the four bytes of the result is \<open>store_be32\<close>.
\<close>

definition load_be32 :: "string \<Rightarrow> u32" where
  "load_be32 s =
     push_bit 24 (of_char (s ! 0)) OR push_bit 16 (of_char (s ! 1)) OR
     push_bit 8 (of_char (s ! 2)) OR of_char (s ! 3)"

definition store_be32 :: "u32 \<Rightarrow> string" where
  "store_be32 v =
     [char_of (unat (drop_bit 24 v AND 0xFF)), char_of (unat (drop_bit 16 v AND 0xFF)),
      char_of (unat (drop_bit 8 v AND 0xFF)), char_of (unat (v AND 0xFF))]"

text \<open>
  The chat server (websocket\_server.cc). \<open>dispatch_chat\<close> is the body of
  \<^verbatim>\<open>if (!payload.empty())\<close>. The comparison \<^verbatim>\<open>payload.size() < 4 + nameLen\<close> adds an
  \<^verbatim>\<open>int\<close> to a \<^verbatim>\<open>uint32_t\<close>, so the sum is computed in 32 bits and wraps; the same sum is
  the argument of the second \<^verbatim>\<open>substr\<close>.
\<close>

fun broadcast_except :: "int list \<Rightarrow> int \<Rightarrow> u8 list \<Rightarrow> action list" where
  "broadcast_except [] client_socket frame = []"
| "broadcast_except (dest_socket # rest) client_socket frame =
     (if dest_socket \<noteq> client_socket then [Send dest_socket frame] else []) @
     broadcast_except rest client_socket frame"

definition dispatch_chat :: "int list \<Rightarrow> int \<Rightarrow> string \<Rightarrow> action list option" where
  "dispatch_chat client_sockets client_socket payload =
     (if payload \<noteq> []
      then (if length payload < 4
            then Some [Cerr [Str ''Invalid message from client '', Num client_socket, Str newline]]
            else (let nameLen = load_be32 payload
                  in if length payload < unat (4 + nameLen)
                     then Some [Cerr [Str ''Invalid message (username length mismatch) from client '',
                                      Num client_socket, Str newline]]
                     else (case substr payload 4 (unat nameLen) of
                             None \<Rightarrow> None
                           | Some username \<Rightarrow>
                               (case substr_from payload (unat (4 + nameLen)) of
                                  None \<Rightarrow> None
                                | Some chatMsg \<Rightarrow>
                                    (let fullMsg = ''['' @ username @ ''] '' @ chatMsg;
                                         frame = BuildWSFrame fullMsg TEXT
                                     in Some (Cout [Str fullMsg, Str newline] #
                                              broadcast_except client_sockets client_socket frame))))))
      else Some [])"

text \<open>
  One pass of the loop over \<^verbatim>\<open>client_sockets\<close>: \<open>client_iteration\<close> is the loop body
  at iterator position \<open>it\<close>, \<open>process_clients\<close> the loop.
\<close>

definition erase_at :: "int list \<Rightarrow> nat \<Rightarrow> int list" where
  "erase_at client_sockets it = take it client_sockets @ drop (it + 1) client_sockets"

definition client_iteration ::
  "(int \<Rightarrow> recv_result option) \<Rightarrow> int list \<Rightarrow> nat \<Rightarrow> (int list \<times> nat \<times> action list) option" where
  "client_iteration incoming client_sockets it =
     (let client_socket = client_sockets ! it
      in case incoming client_socket of
           None \<Rightarrow> Some (client_sockets, it + 1, [])
         | Some RecvClosed \<Rightarrow>
             Some (erase_at client_sockets it, it,
                   [Cout [Str ''Client '', Num client_socket, Str '' disconnected.'', Str newline],
                    Close client_socket])
         | Some (RecvData data) \<Rightarrow>
             (case ParseWSFrame data of
                None \<Rightarrow> None
              | Some payload \<Rightarrow>
                  (case dispatch_chat client_sockets client_socket payload of
                     None \<Rightarrow> None
                   | Some out \<Rightarrow> Some (client_sockets, it + 1, out))))"

lemma client_iteration_measure:
  "it < length client_sockets \<Longrightarrow>
   client_iteration incoming client_sockets it = Some (cs', it', out) \<Longrightarrow>
   length cs' - it' < length client_sockets - it"
  by (auto simp: client_iteration_def Let_def erase_at_def
      split: option.splits recv_result.splits)

function process_clients ::
  "(int \<Rightarrow> recv_result option) \<Rightarrow> int list \<Rightarrow> nat \<Rightarrow> action list \<Rightarrow>
   (int list \<times> action list) option" where
  "process_clients incoming client_sockets it acts =
     (if it < length client_sockets
      then (case client_iteration incoming client_sockets it of
              None \<Rightarrow> None
            | Some (cs', it', out) \<Rightarrow> process_clients incoming cs' it' (acts @ out))
      else Some (client_sockets, acts))"
  by pat_completeness auto
termination
  by (relation "measure (\<lambda>(incoming, client_sockets, it, acts). length client_sockets - it)")
     (auto simp: client_iteration_measure)

declare process_clients.simps [simp del]

text \<open>
  The chat client: the payload it sends for a line of input, and what it does when its
  socket is readable. The single-client server differs only in the prefix it prints.
\<close>

definition chat_payload :: "string \<Rightarrow> string \<Rightarrow> string" where
  "chat_payload username input =
     (let nameLen = (word_of_nat (length username) :: u32)
      in store_be32 nameLen @ username @ input)"

definition client_on_readable :: "recv_result \<Rightarrow> (bool \<times> action list) option" where
  "client_on_readable r =
     (case r of
        RecvClosed \<Rightarrow> Some (False, [Cout [Str ''Server disconnected.'', Str newline]])
      | RecvData data \<Rightarrow>
          (case ParseWSFrame data of
             None \<Rightarrow> None
           | Some msg \<Rightarrow> Some (True, if msg \<noteq> [] then [Cout [Str msg, Str newline]] else [])))"

definition single_server_on_readable :: "recv_result \<Rightarrow> (bool \<times> action list) option" where
  "single_server_on_readable r =
     (case r of
        RecvClosed \<Rightarrow> Some (False, [Cout [Str ''Client disconnected.'', Str newline]])
      | RecvData data \<Rightarrow>
          (case ParseWSFrame data of
             None \<Rightarrow> None
           | Some msg \<Rightarrow>
               Some (True, if msg \<noteq> [] then [Cout [Str ''[Client] '', Str msg, Str newline]] else [])))"

text \<open>
  The file monitor's \<^verbatim>\<open>ProcessClientMessages\<close> receives and discards: it never decodes.
\<close>

definition monitor_iteration ::
  "(int \<Rightarrow> recv_result option) \<Rightarrow> int list \<Rightarrow> nat \<Rightarrow> int list \<times> nat \<times> action list" where
  "monitor_iteration incoming Clients it =
     (let sock = Clients ! it
      in case incoming sock of
           None \<Rightarrow> (Clients, it + 1, [])
         | Some RecvClosed \<Rightarrow> (erase_at Clients it, it, [Close sock])
         | Some (RecvData data) \<Rightarrow> (Clients, it + 1, []))"

section \<open>Properties of the frame codec\<close>

lemma unat_of_char8: "unat (of_char c :: u8) = of_char c"
proof -
  have "(of_char c :: u8) = of_nat (of_char c)" by (simp add: of_nat_of_char)
  then have "unat (of_char c :: u8) = take_bit 8 (of_char c :: nat)"
    by (simp add: unsigned_of_nat)
  also have "\<dots> = of_char c" by (simp add: take_bit_eq_mod)
  finally show ?thesis .
qed

lemma char_of_byte_of_char [simp]: "char_of_byte (byte_of_char c) = c"
  by (simp add: char_of_byte_def byte_of_char_def unat_of_char8)

lemma unat_u8_less: "unat w < 256" for w :: u8
  using unsigned_less [of w, where ?'a = nat] by simp

lemma byte_of_char_of_byte [simp]: "byte_of_char (char_of_byte b) = b"
proof -
  have "(of_char (char_of (unat b)) :: u8) = of_nat (of_char (char_of (unat b)))"
    by (simp only: of_nat_of_char)
  also have "\<dots> = of_nat (unat b mod 256)" by simp
  also have "\<dots> = b" using unat_u8_less [of b] by simp
  finally show ?thesis by (simp add: char_of_byte_def byte_of_char_def)
qed

lemma low7: "unat (w AND 0x7F) = unat w mod 128" for w :: u8
proof -
  have "(0x7F :: u8) = mask 7" by (simp add: mask_eq_exp_minus_1)
  then have "w AND 0x7F = take_bit 7 w" by (simp only: take_bit_eq_mask)
  then have "unat (w AND 0x7F) = take_bit 7 (unat w)" by (simp only: unsigned_take_bit_eq)
  then show ?thesis by (simp only: take_bit_eq_mod) simp
qed

lemma div128: "n < 256 \<Longrightarrow> odd (n div 128) = (128 \<le> n)" for n :: nat
proof (cases "n < 128")
  case True then show ?thesis by simp
next
  case False
  assume "n < 256"
  with False have "n div 128 = 1" by (intro div_nat_eqI) simp_all
  with False show ?thesis by simp
qed

lemma bit7: "(w AND 0x80 \<noteq> 0) = (128 \<le> unat w)" for w :: u8
proof -
  have "(0x80 :: u8) = 2 ^ 7" by simp
  then have a: "(w AND 0x80 = 0) = (\<not> bit w 7)"
    by (simp only: and_exp_eq_0_iff_not_bit)
  have b: "bit w 7 = bit (unat w) 7" by (simp add: bit_unsigned_iff)
  have c: "bit (unat w) 7 = (128 \<le> unat w)"
    using div128 [OF unat_u8_less [of w]] by (simp add: bit_iff_odd)
  show ?thesis using a b c by simp
qed

lemma nat_and_255: "n AND 0xFF = n mod 256" for n :: nat
proof -
  have "(0xFF :: nat) = mask 8" by (simp add: mask_eq_exp_minus_1)
  then have "n AND 0xFF = take_bit 8 n" by (simp only: take_bit_eq_mask)
  then show ?thesis by (simp add: take_bit_eq_mod)
qed

lemma shift_or: "b < 256 \<Longrightarrow> push_bit 8 a OR b = 256 * a + b" for a b :: nat
proof -
  assume "b < 256"
  then have tb: "take_bit 8 b = b" by (simp add: take_bit_nat_eq_self)
  have "\<not> bit (push_bit 8 a) n \<or> \<not> bit b n" for n
  proof (cases "n < 8")
    case True then show ?thesis by (simp add: bit_push_bit_iff)
  next
    case False
    have "bit b n = bit (take_bit 8 b) n" by (simp only: tb)
    with False show ?thesis by (simp add: bit_take_bit_iff)
  qed
  then have "push_bit 8 a + b = push_bit 8 a OR b" by (rule disjunctive_add)
  then show ?thesis by (simp add: push_bit_eq_mult)
qed

lemma ext_len_roundtrip:
  assumes "len \<le> 0xFFFF"
  shows "push_bit 8 (unat (of_nat (drop_bit 8 len AND 0xFF) :: u8)) OR
         unat (of_nat (len AND 0xFF) :: u8) = len"
proof -
  have hi: "unat (of_nat (drop_bit 8 len AND 0xFF) :: u8) = len div 256"
    using assms by (simp add: nat_and_255 unat_of_nat drop_bit_eq_div less_mult_imp_div_less)
  have lo: "unat (of_nat (len AND 0xFF) :: u8) = len mod 256"
    by (simp add: nat_and_255 unat_of_nat)
  show ?thesis unfolding hi lo by (simp add: shift_or)
qed

lemma at_Some: "i < length buffer \<Longrightarrow> at buffer i = Some (buffer ! i)"
  by (simp add: at_def)

lemma copy_loop_eq:
  "pos + n \<le> length buffer \<Longrightarrow> i \<le> n \<Longrightarrow>
   copy_loop buffer pos n i msg =
     Some (msg @ map (\<lambda>j. char_of_byte (buffer ! (pos + j))) [i..<n])"
proof (induction "n - i" arbitrary: i msg)
  case 0
  then show ?case by (subst copy_loop.simps) simp
next
  case (Suc k)
  then have lt: "i < n" and k: "k = n - (i + 1)" by simp_all
  have "copy_loop buffer pos n i msg =
        copy_loop buffer pos n (i + 1) (msg @ [char_of_byte (buffer ! (pos + i))])"
    using lt Suc.prems by (subst copy_loop.simps) (simp add: at_Some)
  also have "\<dots> = Some ((msg @ [char_of_byte (buffer ! (pos + i))]) @
                       map (\<lambda>j. char_of_byte (buffer ! (pos + j))) [i + 1..<n])"
    using Suc.hyps(1) [OF k Suc.prems(1)] lt by simp
  finally show ?case using lt by (simp add: upt_conv_Cons)
qed

lemma unmask_loop_eq:
  "pos + n \<le> length buffer \<Longrightarrow> i \<le> n \<Longrightarrow>
   unmask_loop buffer pos mask_key n i msg =
     Some (msg @ map (\<lambda>j. char_of_byte (buffer ! (pos + j) XOR mask_key ! (j mod 4))) [i..<n])"
proof (induction "n - i" arbitrary: i msg)
  case 0
  then show ?case by (subst unmask_loop.simps) simp
next
  case (Suc k)
  then have lt: "i < n" and k: "k = n - (i + 1)" by simp_all
  have "unmask_loop buffer pos mask_key n i msg =
        unmask_loop buffer pos mask_key n (i + 1)
          (msg @ [char_of_byte (buffer ! (pos + i) XOR mask_key ! (i mod 4))])"
    using lt Suc.prems by (subst unmask_loop.simps) (simp add: at_Some)
  also have "\<dots> = Some ((msg @ [char_of_byte (buffer ! (pos + i) XOR mask_key ! (i mod 4))]) @
                 map (\<lambda>j. char_of_byte (buffer ! (pos + j) XOR mask_key ! (j mod 4))) [i + 1..<n])"
    using Suc.hyps(1) [OF k Suc.prems(1)] lt by simp
  finally show ?case using lt by (simp add: upt_conv_Cons)
qed

lemma read_mask_key_eq:
  "pos + 4 \<le> length buffer \<Longrightarrow>
   read_mask_key buffer pos =
     Some [buffer ! pos, buffer ! (pos + 1), buffer ! (pos + 2), buffer ! (pos + 3)]"
  by (simp add: read_mask_key_def at_Some)

lemma parse_body_total: "\<exists>s. parse_body buffer masked n pos = Some s"
  by (simp add: parse_body_def read_mask_key_eq unmask_loop_eq copy_loop_eq not_less)

lemma ParseWSFrame_total: "\<exists>s. ParseWSFrame buffer = Some s"
  using parse_body_total
  by (simp add: ParseWSFrame_def Let_def at_Some not_less)

lemma map_nth_append_shift:
  "map (\<lambda>j. f ((hdr @ xs) ! (length hdr + j))) [0..<length xs] = map f xs"
  by (rule nth_equalityI) simp_all

lemma parse_unmasked:
  "parse_body (hdr @ map byte_of_char P) False (length P) (length hdr) = Some P"
proof -
  have "copy_loop (hdr @ map byte_of_char P) (length hdr) (length P) 0 [] =
        Some (map (\<lambda>j. char_of_byte ((hdr @ map byte_of_char P) ! (length hdr + j))) [0..<length P])"
    by (simp add: copy_loop_eq)
  also have "map (\<lambda>j. char_of_byte ((hdr @ map byte_of_char P) ! (length hdr + j))) [0..<length P]
             = P"
    using map_nth_append_shift [of char_of_byte hdr "map byte_of_char P"]
    by (simp add: comp_def)
  finally show ?thesis by (simp add: parse_body_def)
qed

lemma ParseWSFrame_short: "length buffer < 2 \<Longrightarrow> ParseWSFrame buffer = Some []"
  by (simp add: ParseWSFrame_def)

lemma ParseWSFrame_127:
  "unat (buffer ! 1 AND 0x7F) = 127 \<Longrightarrow> ParseWSFrame buffer = Some []"
  by (simp add: ParseWSFrame_def at_def Let_def)

lemma ParseWSFrame_direct:
  "2 \<le> length buffer \<Longrightarrow> unat (buffer ! 1 AND 0x7F) < 126 \<Longrightarrow>
   ParseWSFrame buffer =
     parse_body buffer (buffer ! 1 AND 0x80 \<noteq> 0) (unat (buffer ! 1 AND 0x7F)) 2"
  by (simp add: ParseWSFrame_def at_def Let_def)

lemma ParseWSFrame_ext_short:
  "unat (buffer ! 1 AND 0x7F) = 126 \<Longrightarrow> length buffer < 4 \<Longrightarrow>
   ParseWSFrame buffer = Some []"
  by (simp add: ParseWSFrame_def at_def Let_def)

lemma ParseWSFrame_ext:
  "4 \<le> length buffer \<Longrightarrow> unat (buffer ! 1 AND 0x7F) = 126 \<Longrightarrow>
   ParseWSFrame buffer =
     parse_body buffer (buffer ! 1 AND 0x80 \<noteq> 0)
       (push_bit 8 (unat (buffer ! 2)) OR unat (buffer ! 3)) 4"
  by (simp add: ParseWSFrame_def at_def Let_def)

lemma small_len_byte:
  assumes "n < 126"
  shows "unat ((of_nat n :: u8) AND 0x7F) = n" and "\<not> ((of_nat n :: u8) AND 0x80 \<noteq> 0)"
proof -
  have u: "unat (of_nat n :: u8) = n" using assms by (simp add: unat_of_nat)
  show "unat ((of_nat n :: u8) AND 0x7F) = n" using assms by (simp add: low7 u)
  show "\<not> ((of_nat n :: u8) AND 0x80 \<noteq> 0)" using assms by (simp only: bit7 u)
qed

lemma roundtrip_small:
  assumes "length P < 126"
  shows "ParseWSFrame (BuildWSFrame P opcode) = Some P"
proof -
  let ?hdr = "[0x80 OR opcode_value opcode, of_nat (length P)] :: u8 list"
  have f: "BuildWSFrame P opcode = ?hdr @ map byte_of_char P"
    using assms by (simp add: BuildWSFrame_def Let_def)
  have "parse_body (?hdr @ map byte_of_char P) False (length P) 2 = Some P"
    using parse_unmasked [of ?hdr P] by (simp add: numeral_2_eq_2)
  then show ?thesis unfolding f
    using assms small_len_byte [OF assms]
    by (simp add: ParseWSFrame_direct)
qed

lemma roundtrip_ext:
  assumes "126 \<le> length P" "length P \<le> 0xFFFF"
  shows "ParseWSFrame (BuildWSFrame P opcode) = Some P"
proof -
  let ?hdr = "[0x80 OR opcode_value opcode, 126, of_nat (drop_bit 8 (length P) AND 0xFF),
               of_nat (length P AND 0xFF)] :: u8 list"
  have f: "BuildWSFrame P opcode = ?hdr @ map byte_of_char P"
    using assms by (simp add: BuildWSFrame_def Let_def)
  have "parse_body (?hdr @ map byte_of_char P) False (length P) 4 = Some P"
    using parse_unmasked [of ?hdr P] by (simp add: eval_nat_numeral)
  then show ?thesis unfolding f
    using assms ext_len_roundtrip [OF assms(2)]
    by (simp add: ParseWSFrame_ext)
qed

text \<open>
  Claim C1. For every payload \<open>P\<close> of at most 65535 bytes, decoding the unmasked TEXT
  frame built for \<open>P\<close> returns exactly \<open>P\<close>; and when \<open>126 \<le> length P \<le> 65535\<close>
  the frame is the byte \<open>0x81\<close>, the marker 126, the length as two big-endian bytes, then
  the payload bytes unchanged.
\<close>

theorem frame_roundtrip:
  "(length P \<le> 65535 \<longrightarrow> ParseWSFrame (BuildWSFrame P TEXT) = Some P) \<and>
   (126 \<le> length P \<and> length P \<le> 65535 \<longrightarrow>
      take 2 (BuildWSFrame P TEXT) = [0x81, 126] \<and>
      256 * unat (BuildWSFrame P TEXT ! 2) + unat (BuildWSFrame P TEXT ! 3) = length P \<and>
      drop 4 (BuildWSFrame P TEXT) = map byte_of_char P)"
proof (intro conjI impI)
  assume "length P \<le> 65535"
  then show "ParseWSFrame (BuildWSFrame P TEXT) = Some P"
    using roundtrip_small [of P TEXT] roundtrip_ext [of P TEXT] by (cases "length P < 126") simp_all
next
  assume a: "126 \<le> length P \<and> length P \<le> 65535"
  then have f: "BuildWSFrame P TEXT =
      [0x81, 126, of_nat (drop_bit 8 (length P) AND 0xFF), of_nat (length P AND 0xFF)] @
      map byte_of_char P"
    by (simp add: BuildWSFrame_def Let_def)
  have hi: "unat (of_nat (drop_bit 8 (length P) AND 0xFF) :: u8) = length P div 256"
    using a by (simp add: nat_and_255 unat_of_nat drop_bit_eq_div less_mult_imp_div_less)
  have lo: "unat (of_nat (length P AND 0xFF) :: u8) = length P mod 256"
    by (simp add: nat_and_255 unat_of_nat)
  show "take 2 (BuildWSFrame P TEXT) = [0x81, 126]" unfolding f by simp
  have n2: "BuildWSFrame P TEXT ! 2 = of_nat (drop_bit 8 (length P) AND 0xFF)"
    and n3: "BuildWSFrame P TEXT ! 3 = of_nat (length P AND 0xFF)"
    unfolding f by simp_all
  show "256 * unat (BuildWSFrame P TEXT ! 2) + unat (BuildWSFrame P TEXT ! 3) = length P"
    unfolding n2 n3 hi lo by simp
  show "drop 4 (BuildWSFrame P TEXT) = map byte_of_char P" unfolding f by simp
qed

theorem frame_roundtrip_witness:
  "ParseWSFrame (BuildWSFrame (replicate 126 (CHR ''a'')) TEXT) = Some (replicate 126 (CHR ''a'')) \<and>
   take 2 (BuildWSFrame (replicate 126 (CHR ''a'')) TEXT) = [0x81, 126] \<and>
   256 * unat (BuildWSFrame (replicate 126 (CHR ''a'')) TEXT ! 2) +
     unat (BuildWSFrame (replicate 126 (CHR ''a'')) TEXT ! 3) = 126 \<and>
   drop 4 (BuildWSFrame (replicate 126 (CHR ''a'')) TEXT) = replicate 126 (byte_of_char (CHR ''a''))"
  using frame_roundtrip [of "replicate 126 (CHR ''a'')"] by simp

lemma high_bit_len:
  assumes "n < 128"
  shows "unat ((0x80 OR of_nat n :: u8) AND 0x7F) = n" and "(0x80 OR of_nat n :: u8) AND 0x80 \<noteq> 0"
proof -
  have u: "unat (of_nat n :: u8) = n" using assms by (simp add: unat_of_nat)
  have "\<not> ((of_nat n :: u8) AND 0x80 \<noteq> 0)" using assms by (simp add: bit7 u)
  then have "(0x80 :: u8) AND of_nat n = 0" by (simp add: and.commute)
  then have "(0x80 :: u8) OR of_nat n = 0x80 + of_nat n" by (simp add: disjunctive_add_eq_or)
  also have "\<dots> = of_nat (128 + n)" by simp
  finally have e: "unat (0x80 OR of_nat n :: u8) = 128 + n"
    using assms by (simp only: unat_of_nat) simp
  show "unat ((0x80 OR of_nat n :: u8) AND 0x7F) = n" using assms by (simp add: low7 e)
  show "(0x80 OR of_nat n :: u8) AND 0x80 \<noteq> 0" by (simp add: bit7 e)
qed

lemma xor_twice: "(a XOR k) XOR k = a" for a k :: u8
  by (simp add: xor.assoc)

lemma parse_masked:
  assumes "length K = 4" "pos = length hdr"
  shows "parse_body (hdr @ K @ mask_payload K P) True (length P) pos = Some P"
proof -
  let ?buf = "hdr @ K @ mask_payload K P"
  have len: "length ?buf = pos + 4 + length P" using assms by (simp add: mask_payload_def)
  have "length K = Suc (Suc (Suc (Suc 0)))" using assms by simp
  then obtain k0 k1 k2 k3 where K: "K = [k0, k1, k2, k3]"
    by (auto simp: length_Suc_conv)
  have key: "[?buf ! pos, ?buf ! (pos + 1), ?buf ! (pos + 2), ?buf ! (pos + 3)] = K"
    using assms(2) unfolding K by (simp add: nth_append)
  have rk: "read_mask_key ?buf pos = Some K"
    using read_mask_key_eq [of pos ?buf] len key by simp
  have "map (\<lambda>j. char_of_byte (?buf ! (pos + 4 + j) XOR K ! (j mod 4))) [0..<length P] = P"
  proof (rule nth_equalityI)
    show "length (map (\<lambda>j. char_of_byte (?buf ! (pos + 4 + j) XOR K ! (j mod 4))) [0..<length P]) = length P"
      by simp
  next
    fix i assume "i < length (map (\<lambda>j. char_of_byte (?buf ! (pos + 4 + j) XOR K ! (j mod 4))) [0..<length P])"
    then have i: "i < length P" by simp
    have "?buf ! (pos + 4 + i) = mask_payload K P ! i"
      using assms by (simp add: nth_append)
    also have "\<dots> = byte_of_char (P ! i) XOR K ! (i mod 4)"
      using i by (simp add: mask_payload_def)
    finally show "map (\<lambda>j. char_of_byte (?buf ! (pos + 4 + j) XOR K ! (j mod 4))) [0..<length P] ! i = P ! i"
      using i by (simp add: xor_twice)
  qed
  then have "unmask_loop ?buf (pos + 4) K (length P) 0 [] = Some P"
    using unmask_loop_eq [of "pos + 4" "length P" ?buf 0 K "[]"] len by simp
  then show ?thesis using len rk by (simp add: parse_body_def)
qed

text \<open>
  Claim C2. For every payload \<open>P\<close> of at most 65535 bytes and every four-byte key
  \<open>K\<close>, decoding the masked frame that carries \<open>K\<close> and the bytes of \<open>P\<close> XOR'd with
  \<open>K[i mod 4]\<close> returns exactly \<open>P\<close>.
\<close>

theorem masked_roundtrip:
  assumes "length K = 4" "length P \<le> 65535"
  shows "ParseWSFrame (masked_frame opcode K P) = Some P"
proof (cases "length P < 126")
  case True
  let ?hdr = "[0x80 OR opcode_value opcode, 0x80 OR of_nat (length P)] :: u8 list"
  have f: "masked_frame opcode K P = ?hdr @ K @ mask_payload K P"
    using True by (simp add: masked_frame_def)
  have n: "length P < 128" using True by simp
  have pb: "parse_body (?hdr @ K @ mask_payload K P) True (length P) 2 = Some P"
    using parse_masked [OF assms(1), of 2 ?hdr P] by simp
  show ?thesis unfolding f
    using True high_bit_len [OF n] pb by (simp add: ParseWSFrame_direct)
next
  case False
  let ?hdr = "[0x80 OR opcode_value opcode, 0x80 OR 126, of_nat (length P div 256),
               of_nat (length P mod 256)] :: u8 list"
  have f: "masked_frame opcode K P = ?hdr @ K @ mask_payload K P"
    using False by (simp add: masked_frame_def)
  have hi: "unat (of_nat (length P div 256) :: u8) = length P div 256"
    using assms(2) by (simp add: unat_of_nat less_mult_imp_div_less)
  have lo: "unat (of_nat (length P mod 256) :: u8) = length P mod 256"
    by (simp add: unat_of_nat)
  have l: "push_bit 8 (unat (of_nat (length P div 256) :: u8)) OR
           unat (of_nat (length P mod 256) :: u8) = length P"
    unfolding hi lo by (simp add: shift_or)
  have pb: "parse_body (?hdr @ K @ mask_payload K P) True (length P) 4 = Some P"
    using parse_masked [OF assms(1), of 4 ?hdr P] by simp
  have c: "unat ((0x80 OR 126 :: u8) AND 0x7F) = 126" "(0x80 OR 126 :: u8) AND 0x80 \<noteq> 0"
    by simp_all
  show ?thesis unfolding f
    using l pb c by (simp add: ParseWSFrame_ext)
qed

theorem masked_roundtrip_witness:
  "ParseWSFrame (masked_frame TEXT [0x37, 0xfa, 0x21, 0x3d] ''Hello'') = Some ''Hello'' \<and>
   masked_frame TEXT [0x37, 0xfa, 0x21, 0x3d] ''Hello'' =
     [0x81, 0x85, 0x37, 0xfa, 0x21, 0x3d, 0x7f, 0x9f, 0x4d, 0x51, 0x58]"
  using masked_roundtrip [of "[0x37, 0xfa, 0x21, 0x3d]" "''Hello''" TEXT]
  by (simp add: masked_frame_def mask_payload_def byte_of_char_def upt_conv_Cons)

lemma parse_body_past_total:
  "length buffer < pos + (if masked then 4 else 0) + n \<Longrightarrow>
   parse_body buffer masked n pos = Some []"
  by (cases masked) (simp_all add: parse_body_def)

text \<open>
  Claim C4. \<open>ParseWSFrame\<close> never reads outside the buffer (its result is never
  \<open>None\<close>), and it returns the empty string when the buffer has fewer than two bytes,
  when the length code is 127, when the length code is 126 and fewer than four bytes are
  present, and when the declared payload length (plus four key bytes for a masked frame)
  exceeds the bytes that follow the header.
\<close>

theorem malformed_input:
  "(\<exists>s. ParseWSFrame buffer = Some s) \<and>
   (length buffer < 2 \<longrightarrow> ParseWSFrame buffer = Some []) \<and>
   (2 \<le> length buffer \<and> frame_len_code buffer = 127 \<longrightarrow> ParseWSFrame buffer = Some []) \<and>
   (2 \<le> length buffer \<and> frame_len_code buffer = 126 \<and> length buffer < 4 \<longrightarrow>
      ParseWSFrame buffer = Some []) \<and>
   (2 \<le> length buffer \<and> frame_len_code buffer \<noteq> 127 \<and>
    frame_header_size buffer \<le> length buffer \<and>
    length buffer - frame_header_size buffer <
      frame_declared_len buffer + (if frame_masked buffer then 4 else 0) \<longrightarrow>
      ParseWSFrame buffer = Some [])"
proof (intro conjI impI)
  show "\<exists>s. ParseWSFrame buffer = Some s" by (rule ParseWSFrame_total)
  show "ParseWSFrame buffer = Some []" if "length buffer < 2"
    using that by (rule ParseWSFrame_short)
  show "ParseWSFrame buffer = Some []" if "2 \<le> length buffer \<and> frame_len_code buffer = 127"
    using that by (simp add: ParseWSFrame_127 frame_len_code_def)
  show "ParseWSFrame buffer = Some []"
    if "2 \<le> length buffer \<and> frame_len_code buffer = 126 \<and> length buffer < 4"
    using that by (simp add: ParseWSFrame_ext_short frame_len_code_def)
  show "ParseWSFrame buffer = Some []"
    if a: "2 \<le> length buffer \<and> frame_len_code buffer \<noteq> 127 \<and>
        frame_header_size buffer \<le> length buffer \<and>
        length buffer - frame_header_size buffer <
          frame_declared_len buffer + (if frame_masked buffer then 4 else 0)"
  proof (cases "frame_len_code buffer = 126")
    case True
    with a have l4: "4 \<le> length buffer" by (simp add: frame_header_size_def)
    have "unat (buffer ! 3) < 256" by (rule unat_u8_less)
    then have d: "frame_declared_len buffer = push_bit 8 (unat (buffer ! 2)) OR unat (buffer ! 3)"
      using True by (simp add: frame_declared_len_def shift_or)
    have "length buffer <
            4 + (if frame_masked buffer then 4 else 0) + frame_declared_len buffer"
      using a True by (auto simp: frame_header_size_def split: if_splits)
    then have "parse_body buffer (frame_masked buffer) (frame_declared_len buffer) 4 = Some []"
      by (rule parse_body_past_total)
    then show ?thesis
      using True l4 d
      by (simp add: ParseWSFrame_ext frame_len_code_def frame_masked_def)
  next
    case False
    have "unat (buffer ! 1 AND 0x7F) < 128" by (simp add: low7)
    with False a have lt: "unat (buffer ! 1 AND 0x7F) < 126"
      by (simp add: frame_len_code_def)
    have "length buffer <
            2 + (if frame_masked buffer then 4 else 0) + frame_declared_len buffer"
      using a False by (auto simp: frame_header_size_def split: if_splits)
    then have "parse_body buffer (frame_masked buffer) (frame_declared_len buffer) 2 = Some []"
      by (rule parse_body_past_total)
    then show ?thesis
      using a False lt
      by (simp add: ParseWSFrame_direct frame_len_code_def frame_declared_len_def
            frame_masked_def)
  qed
qed

theorem malformed_input_witness:
  "ParseWSFrame [0x81] = Some [] \<and>
   ParseWSFrame [0x81, 0x7F, 0, 0, 0, 0, 0, 0, 0, 1, 0x41] = Some [] \<and>
   ParseWSFrame [0x81, 0x7E, 0x01] = Some [] \<and>
   ParseWSFrame [0x81, 0x05, 0x41, 0x42] = Some [] \<and>
   ParseWSFrame [0x81, 0x82, 0x01, 0x02, 0x03, 0x04, 0x41] = Some [] \<and>
   ParseWSFrame [0x81, 0x7E, 0x01, 0x00, 0x41] = Some []"
  using malformed_input [of "[0x81]"]
    malformed_input [of "[0x81, 0x7F, 0, 0, 0, 0, 0, 0, 0, 1, 0x41]"]
    malformed_input [of "[0x81, 0x7E, 0x01]"]
    malformed_input [of "[0x81, 0x05, 0x41, 0x42]"]
    malformed_input [of "[0x81, 0x82, 0x01, 0x02, 0x03, 0x04, 0x41]"]
    malformed_input [of "[0x81, 0x7E, 0x01, 0x00, 0x41]"]
  by (simp add: frame_len_code_def frame_header_size_def frame_declared_len_def frame_masked_def)


lemma at_tail: "0 < i \<Longrightarrow> at (b0 # rest) i = at (b0' # rest) i"
  by (cases i) (simp_all add: at_def)

lemma parse_body_byte0:
  assumes "0 < pos"
  shows "parse_body (b0 # rest) masked n pos = parse_body (b0' # rest) masked n pos"
proof -
  have nth: "(b0 # rest) ! (pos + j) = (b0' # rest) ! (pos + j)" for j
    using assms by (cases pos) simp_all
  have nth4: "(b0 # rest) ! (pos + 4 + j) = (b0' # rest) ! (pos + 4 + j)" for j
    using nth [of "4 + j"] by (simp add: add.assoc)
  have c: "copy_loop (b0 # rest) pos n 0 [] = copy_loop (b0' # rest) pos n 0 []"
    if "pos + n \<le> length (b0 # rest)"
    using that copy_loop_eq [of pos n "b0 # rest" 0 "[]"] copy_loop_eq [of pos n "b0' # rest" 0 "[]"]
    by (simp only: nth) simp
  have k: "read_mask_key (b0 # rest) pos = read_mask_key (b0' # rest) pos"
    using assms by (simp add: read_mask_key_def at_tail [of _ b0 rest b0'])
  have u: "unmask_loop (b0 # rest) (pos + 4) K n 0 [] = unmask_loop (b0' # rest) (pos + 4) K n 0 []"
    if "pos + 4 + n \<le> length (b0 # rest)" for K
    using that unmask_loop_eq [of "pos + 4" n "b0 # rest" 0 K "[]"]
      unmask_loop_eq [of "pos + 4" n "b0' # rest" 0 K "[]"]
    by (simp only: nth4) simp
  show ?thesis
    using c u k by (auto simp: parse_body_def not_less split: option.splits)
qed

text \<open>
  Claim C9, amended. Frame decode returns the payload only: its result does not depend on
  byte 0, which holds the FIN bit and the opcode. A caller that wants them reads byte 0
  of the buffer itself.
\<close>

theorem decode_ignores_byte0:
  "ParseWSFrame (b0 # rest) = ParseWSFrame (b0' # rest)"
proof -
  have a: "at (b0 # rest) 1 = at (b0' # rest) 1" "at (b0 # rest) 2 = at (b0' # rest) 2"
    "at (b0 # rest) 3 = at (b0' # rest) 3"
    by (simp_all add: at_tail [of _ b0 rest b0'])
  have l: "length (b0 # rest) = length (b0' # rest)" by simp
  have p: "parse_body (b0 # rest) masked n 2 = parse_body (b0' # rest) masked n 2"
    "parse_body (b0 # rest) masked n (2 + 2) = parse_body (b0' # rest) masked n (2 + 2)"
    for masked n
    by (simp_all add: parse_body_byte0 [of _ b0 rest _ _ b0'])
  show ?thesis unfolding ParseWSFrame_def Let_def l a p by (rule refl)
qed


text \<open>
  Claim C9 as stated fails. A TEXT frame with FIN set and a CLOSE-range frame without FIN
  decode to the same result, so the decoder's result carries no frame metadata.
\<close>

theorem decode_metadata_counterexample:
  "ParseWSFrame [0x81, 0x02, 0x68, 0x69] = Some ''hi'' \<and>
   ParseWSFrame [0x08, 0x02, 0x68, 0x69] = Some ''hi'' \<and>
   frame_fin [0x81, 0x02, 0x68, 0x69] \<noteq> frame_fin [0x08, 0x02, 0x68, 0x69] \<and>
   frame_opcode [0x81, 0x02, 0x68, 0x69] \<noteq> frame_opcode [0x08, 0x02, 0x68, 0x69]"
  by (simp add: ParseWSFrame_def parse_body_def at_def Let_def copy_loop.simps
        char_of_byte_def char_of_eq_iff frame_fin_def frame_opcode_def)

section \<open>Properties of the runtime loops\<close>

lemma be32_byte: "(of_char (char_of (unat (x AND 0xFF))) :: u32) = x AND 0xFF" for x :: u32
proof -
  have m: "(0xFF :: u32) = mask 8" by (simp add: mask_eq_exp_minus_1)
  have "unat (x AND 0xFF) = take_bit 8 (unat x)"
    unfolding m by (simp only: take_bit_eq_mask [symmetric] unsigned_take_bit_eq)
  then have lt: "unat (x AND 0xFF) < 256" by (simp add: take_bit_eq_mod)
  have "(of_char (char_of (unat (x AND 0xFF))) :: u32) = of_nat (of_char (char_of (unat (x AND 0xFF))))"
    by (simp only: of_nat_of_char)
  also have "\<dots> = of_nat (unat (x AND 0xFF) mod 256)" by simp
  also have "\<dots> = x AND 0xFF" using lt by simp
  finally show ?thesis .
qed

lemma be32_join:
  "push_bit 24 (drop_bit 24 v AND 0xFF) OR push_bit 16 (drop_bit 16 v AND 0xFF) OR
   push_bit 8 (drop_bit 8 v AND 0xFF) OR (v AND 0xFF) = v" for v :: u32
proof -
  have m: "(0xFF :: u32) = mask 8" by (simp add: mask_eq_exp_minus_1)
  show ?thesis unfolding m
  proof (rule bit_word_eqI)
    fix n :: nat
    assume "n < LENGTH(32)"
    then consider "n < 8" | "8 \<le> n" "n < 16" | "16 \<le> n" "n < 24" | "24 \<le> n" "n < 32"
      by fastforce
    then show "bit (push_bit 24 (drop_bit 24 v AND mask 8) OR push_bit 16 (drop_bit 16 v AND mask 8) OR
                    push_bit 8 (drop_bit 8 v AND mask 8) OR (v AND mask 8)) n = bit v n"
      by cases
        (auto simp: bit_or_iff bit_push_bit_iff bit_and_iff bit_drop_bit_eq bit_mask_iff)
  qed
qed

lemma load_store_be32: "load_be32 (store_be32 v @ rest) = v"
proof -
  have n: "(store_be32 v @ rest) ! 0 = char_of (unat (drop_bit 24 v AND 0xFF))"
    "(store_be32 v @ rest) ! 1 = char_of (unat (drop_bit 16 v AND 0xFF))"
    "(store_be32 v @ rest) ! 2 = char_of (unat (drop_bit 8 v AND 0xFF))"
    "(store_be32 v @ rest) ! 3 = char_of (unat (v AND 0xFF))"
    by (simp_all add: store_be32_def)
  show ?thesis unfolding load_be32_def n be32_byte by (rule be32_join)
qed

lemma broadcast_except_eq:
  "broadcast_except client_sockets client_socket frame =
     map (\<lambda>d. Send d frame) (filter (\<lambda>d. d \<noteq> client_socket) client_sockets)"
  by (induction client_sockets) simp_all

lemma roundtrip_any:
  "length P \<le> 65535 \<Longrightarrow> ParseWSFrame (BuildWSFrame P opcode) = Some P"
  using roundtrip_small [of P opcode] roundtrip_ext [of P opcode]
  by (cases "length P < 126") simp_all

lemma dispatch_chat_payload:
  assumes "length (chat_payload username input) \<le> 65535"
  shows "dispatch_chat client_sockets client_socket (chat_payload username input) =
           Some (Cout [Str (''['' @ username @ ''] '' @ input), Str newline] #
                 map (\<lambda>d. Send d (BuildWSFrame (''['' @ username @ ''] '' @ input) TEXT))
                   (filter (\<lambda>d. d \<noteq> client_socket) client_sockets))"
proof -
  let ?n = "word_of_nat (length username) :: u32"
  have p: "chat_payload username input = store_be32 ?n @ username @ input"
    by (simp add: chat_payload_def)
  have l4: "length (store_be32 ?n) = 4" by (simp add: store_be32_def)
  have small: "length username + 4 \<le> 65535" using assms unfolding p by (simp add: l4)
  have ld: "load_be32 (chat_payload username input) = ?n"
    unfolding p by (rule load_store_be32)
  have un: "unat ?n = length username" using small by (simp add: unat_of_nat)
  have "4 + ?n = word_of_nat (4 + length username)" by simp
  then have u4: "unat (4 + ?n) = 4 + length username"
    using small by (simp only: unat_of_nat) simp
  have ne: "chat_payload username input \<noteq> []" unfolding p by (simp add: store_be32_def)
  have len: "length (chat_payload username input) = 4 + length username + length input"
    unfolding p by (simp add: l4)
  have s1: "substr (chat_payload username input) 4 (length username) = Some username"
    unfolding p by (simp add: substr_def l4)
  have s2: "substr_from (chat_payload username input) (4 + length username) = Some input"
    unfolding p by (simp add: substr_from_def l4)
  show ?thesis
    unfolding dispatch_chat_def Let_def ld un u4
    using ne len by (simp add: s1 s2 broadcast_except_eq)
qed

text \<open>
  Claim C7. When the connection at position \<open>it\<close> of the registry delivers a chat message
  built by the client, the server sends the re-framed message to every registry entry other
  than the sender, in registry order, and to the sender never; the registry is unchanged.
\<close>

theorem broadcast_excludes_sender:
  assumes "it < length client_sockets"
    and "incoming (client_sockets ! it) =
           Some (RecvData (BuildWSFrame (chat_payload username input) TEXT))"
    and "length (chat_payload username input) \<le> 65535"
  shows "client_iteration incoming client_sockets it =
           Some (client_sockets, it + 1,
                 Cout [Str (''['' @ username @ ''] '' @ input), Str newline] #
                 map (\<lambda>d. Send d (BuildWSFrame (''['' @ username @ ''] '' @ input) TEXT))
                   (filter (\<lambda>d. d \<noteq> client_sockets ! it) client_sockets)) \<and>
         set (filter (\<lambda>d. d \<noteq> client_sockets ! it) client_sockets) =
           set client_sockets - {client_sockets ! it} \<and>
         client_sockets ! it \<in> set client_sockets"
proof -
  have "ParseWSFrame (BuildWSFrame (chat_payload username input) TEXT) =
        Some (chat_payload username input)"
    using assms(3) by (rule roundtrip_any)
  then have "client_iteration incoming client_sockets it =
           Some (client_sockets, it + 1,
                 Cout [Str (''['' @ username @ ''] '' @ input), Str newline] #
                 map (\<lambda>d. Send d (BuildWSFrame (''['' @ username @ ''] '' @ input) TEXT))
                   (filter (\<lambda>d. d \<noteq> client_sockets ! it) client_sockets))"
    using assms(2) dispatch_chat_payload [OF assms(3)]
    by (simp add: client_iteration_def Let_def)
  moreover have "set (filter (\<lambda>d. d \<noteq> client_sockets ! it) client_sockets) =
           set client_sockets - {client_sockets ! it}"
    by auto
  moreover have "client_sockets ! it \<in> set client_sockets"
    using assms(1) by simp
  ultimately show ?thesis by simp
qed

theorem broadcast_excludes_sender_witness:
  "client_iteration
     (\<lambda>s. if s = 3 then Some (RecvData (BuildWSFrame (chat_payload ''al'' ''hey'') TEXT)) else None)
     [3, 4, 5] 0 =
   Some ([3, 4, 5], 1,
         [Cout [Str ''[al] hey'', Str newline],
          Send 4 (BuildWSFrame ''[al] hey'' TEXT), Send 5 (BuildWSFrame ''[al] hey'' TEXT)])"
  using broadcast_excludes_sender [of 0 "[3, 4, 5]"
      "\<lambda>s. if s = 3 then Some (RecvData (BuildWSFrame (chat_payload ''al'' ''hey'') TEXT)) else None"
      "''al''" "''hey''"]
  by (simp add: chat_payload_def store_be32_def)

text \<open>
  Claim C8 at a failing input. The payload \<open>FF FF FF FF 68 69\<close> declares a name of
  4294967295 bytes with two bytes remaining. The 32-bit sum \<open>4 + nameLen\<close> wraps to 3, the
  length check passes, and the server broadcasts instead of dropping the message.
\<close>

theorem chat_name_length_wraps:
  "unat (load_be32 [CHR 0xFF, CHR 0xFF, CHR 0xFF, CHR 0xFF, CHR ''h'', CHR ''i'']) = 4294967295 \<and>
   client_iteration
     (\<lambda>s. if s = 5 then Some (RecvData [0x81, 0x06, 0xFF, 0xFF, 0xFF, 0xFF, 0x68, 0x69]) else None)
     [5, 6] 0 =
   Some ([5, 6], 1,
         [Cout [Str [CHR ''['', CHR ''h'', CHR ''i'', CHR '']'', CHR '' '', CHR 0xFF, CHR ''h'', CHR ''i''],
                Str newline],
          Send 6 [0x81, 0x08, 0x5B, 0x68, 0x69, 0x5D, 0x20, 0xFF, 0x68, 0x69]])"
proof -
  let ?payload = "[CHR 0xFF, CHR 0xFF, CHR 0xFF, CHR 0xFF, CHR ''h'', CHR ''i'']"
  have p: "ParseWSFrame [0x81, 0x06, 0xFF, 0xFF, 0xFF, 0xFF, 0x68, 0x69] = Some ?payload"
    by (simp add: ParseWSFrame_def parse_body_def at_def Let_def copy_loop.simps
          char_of_byte_def char_of_eq_iff)
  have n: "load_be32 ?payload = 0xFFFFFFFF"
    by (simp add: load_be32_def)
  have d: "dispatch_chat [5, 6] 5 ?payload =
      Some [Cout [Str [CHR ''['', CHR ''h'', CHR ''i'', CHR '']'', CHR '' '', CHR 0xFF, CHR ''h'', CHR ''i''],
                  Str newline],
            Send 6 [0x81, 0x08, 0x5B, 0x68, 0x69, 0x5D, 0x20, 0xFF, 0x68, 0x69]]"
    unfolding dispatch_chat_def Let_def n
    by (simp add: substr_def substr_from_def BuildWSFrame_def byte_of_char_def)
  show ?thesis using p d n by (simp add: client_iteration_def)
qed

text \<open>
  Claim C10. A valid frame with an empty payload (unmasked or masked) decodes to the empty
  string, as an incomplete or unsupported frame does; and on any buffer that decodes to the
  empty string every receive loop does nothing and keeps the connection.
\<close>

theorem empty_payload_dropped:
  "ParseWSFrame (BuildWSFrame [] opcode) = Some [] \<and>
   (length K = 4 \<longrightarrow> ParseWSFrame (masked_frame opcode K []) = Some []) \<and>
   ParseWSFrame (take 1 (BuildWSFrame [] opcode)) = Some [] \<and>
   ParseWSFrame [0x80 OR opcode_value opcode, 127] = Some [] \<and>
   (ParseWSFrame data = Some [] \<and> incoming (client_sockets ! it) = Some (RecvData data) \<longrightarrow>
      client_iteration incoming client_sockets it = Some (client_sockets, it + 1, []) \<and>
      client_on_readable (RecvData data) = Some (True, []) \<and>
      single_server_on_readable (RecvData data) = Some (True, []) \<and>
      monitor_iteration incoming client_sockets it = (client_sockets, it + 1, []))"
proof (intro conjI impI)
  show "ParseWSFrame (BuildWSFrame [] opcode) = Some []"
    by (rule roundtrip_any) simp
  show "ParseWSFrame (masked_frame opcode K []) = Some []" if "length K = 4"
  proof -
    let ?hdr = "[0x80 OR opcode_value opcode, 0x80 OR of_nat (length ([] :: string))] :: u8 list"
    have f: "masked_frame opcode K [] = ?hdr @ K @ mask_payload K []"
      by (simp add: masked_frame_def)
    have pb: "parse_body (?hdr @ K @ mask_payload K []) True (length ([] :: string)) 2 = Some []"
      using parse_masked [OF that, of 2 ?hdr "[]"] by simp
    show ?thesis unfolding f
      using high_bit_len [of "length ([] :: string)"] pb by (simp add: ParseWSFrame_direct)
  qed
  show "ParseWSFrame (take 1 (BuildWSFrame [] opcode)) = Some []"
    by (simp add: ParseWSFrame_short)
  show "ParseWSFrame [0x80 OR opcode_value opcode, 127] = Some []"
    by (simp add: ParseWSFrame_127)
next
  assume a: "ParseWSFrame data = Some [] \<and> incoming (client_sockets ! it) = Some (RecvData data)"
  show "client_iteration incoming client_sockets it = Some (client_sockets, it + 1, [])"
    using a by (simp add: client_iteration_def Let_def dispatch_chat_def)
  show "client_on_readable (RecvData data) = Some (True, [])"
    using a by (simp add: client_on_readable_def)
  show "single_server_on_readable (RecvData data) = Some (True, [])"
    using a by (simp add: single_server_on_readable_def)
  show "monitor_iteration incoming client_sockets it = (client_sockets, it + 1, [])"
    using a by (simp add: monitor_iteration_def Let_def)
qed

theorem empty_payload_dropped_witness:
  "ParseWSFrame (masked_frame TEXT [1, 2, 3, 4] []) = Some [] \<and>
   client_iteration (\<lambda>s. Some (RecvData [0x81, 0x00])) [7, 8] 0 = Some ([7, 8], 1, []) \<and>
   client_on_readable (RecvData [0x81, 0x00]) = Some (True, []) \<and>
   single_server_on_readable (RecvData [0x81, 0x00]) = Some (True, []) \<and>
   monitor_iteration (\<lambda>s. Some (RecvData [0x81, 0x00])) [7, 8] 0 = ([7, 8], 1, [])"
proof -
  have p: "ParseWSFrame [0x81, 0x00] = Some []"
    by (simp add: ParseWSFrame_def parse_body_def at_def Let_def copy_loop.simps)
  show ?thesis
    using empty_payload_dropped [of TEXT "[1, 2, 3, 4]" "[0x81, 0x00]"
        "\<lambda>s. Some (RecvData [0x81, 0x00])" "[7, 8]" 0] p
    by simp
qed

end
